theory Spec2Isabelle
  imports Main "HOL-Library.Word" "HOL-Library.Multiset"
begin

unbundle bit_operations_syntax

section \<open>The seminar program \<open>seminars/ranges.cpp\<close>\<close>

text \<open>
  The program is one \<open>main\<close> that runs a few independent demonstrations of the ranges
  library. Three of them compute something: the lazy pipeline over \<open>std::cin\<close>
  (lines 34 to 59), the bounded traversal of \<open>views::iota(0)\<close> (lines 73 to 79) and the
  three sorting calls on \<open>cached_points\<close> (lines 113 to 119). Each is embedded below the
  way it is written: the lambdas and the two stream operators of the file are definitions
  of their own, the views are the iterator loops the library runs for them, and the
  shared input stream is a state that is passed along.
\<close>

subsection \<open>\<open>float\<close>: IEEE-754 binary32\<close>

text \<open>
  A \<open>float\<close> is its 32-bit pattern: bit 31 the sign, bits 30 to 23 the biased exponent,
  bits 22 to 0 the fraction. A pattern \<open>w\<close> that is not a NaN stands for the number
  \<open>f_val w / 2 ^ 149\<close>; the infinities are read as \<open>\<plusminus> 2 ^ 128\<close>, above every finite
  value, so that one integer comparison orders all of them.
\<close>

type_synonym f32 = "32 word"

definition f_sign :: "f32 \<Rightarrow> bool" where
  "f_sign w = bit w 31"

definition f_expo :: "f32 \<Rightarrow> nat" where
  "f_expo w = unat (drop_bit 23 w AND 0xFF)"

definition f_frac :: "f32 \<Rightarrow> nat" where
  "f_frac w = unat (w AND 0x7FFFFF)"

definition is_nan :: "f32 \<Rightarrow> bool" where
  "is_nan w = (f_expo w = 255 \<and> f_frac w \<noteq> 0)"

definition is_inf :: "f32 \<Rightarrow> bool" where
  "is_inf w = (f_expo w = 255 \<and> f_frac w = 0)"

definition f_mant :: "f32 \<Rightarrow> nat" where
  "f_mant w = (if f_expo w = 0 then f_frac w else 2 ^ 23 + f_frac w)"

definition f_scale :: "f32 \<Rightarrow> nat" where
  "f_scale w = (if f_expo w = 0 then 0 else f_expo w - 1)"

definition f_mag :: "f32 \<Rightarrow> nat" where
  "f_mag w = f_mant w * 2 ^ f_scale w"

definition f_val :: "f32 \<Rightarrow> int" where
  "f_val w = (if f_sign w then - int (f_mag w) else int (f_mag w))"

text \<open>The comparisons of the language: every comparison with a NaN is false.\<close>

definition flt :: "f32 \<Rightarrow> f32 \<Rightarrow> bool" where
  "flt a b = (\<not> is_nan a \<and> \<not> is_nan b \<and> f_val a < f_val b)"

definition fle :: "f32 \<Rightarrow> f32 \<Rightarrow> bool" where
  "fle a b = (\<not> is_nan a \<and> \<not> is_nan b \<and> f_val a \<le> f_val b)"

definition fge :: "f32 \<Rightarrow> f32 \<Rightarrow> bool" where
  "fge a b = (\<not> is_nan a \<and> \<not> is_nan b \<and> f_val b \<le> f_val a)"

text \<open>
  Rounding to nearest, ties to even. \<open>f_round s m e\<close> is the \<open>float\<close> nearest to
  \<open>\<plusminus> m * 2 ^ (e - 149)\<close>: the significand is cut to 24 bits (fewer below the normal
  range), and a carry out of the significand or an exponent above the range lands on the
  next binade or on infinity through the encoding itself.
\<close>

fun bitlen :: "nat \<Rightarrow> nat" where
  "bitlen n = (if n = 0 then 0 else Suc (bitlen (n div 2)))"

declare bitlen.simps [simp del]

definition round_shift :: "nat \<Rightarrow> nat \<Rightarrow> nat" where
  "round_shift m sh =
     (let q = m div 2 ^ sh; r = m mod 2 ^ sh; h = 2 ^ (sh - 1)
      in if sh = 0 then m
         else if h < r \<or> (r = h \<and> odd q) then q + 1 else q)"

definition f_round :: "bool \<Rightarrow> nat \<Rightarrow> int \<Rightarrow> f32" where
  "f_round s m e =
     (let sgn = (if s then 0x80000000 else 0 :: f32)
      in if m = 0 then sgn
         else
           let e' = max 0 (e + int (bitlen m) - 24);
               m' = (if e' \<le> e then m * 2 ^ nat (e - e') else round_shift m (nat (e' - e)));
               enc = nat e' * 2 ^ 23 + m'
           in if 0x7F800000 \<le> enc then sgn OR 0x7F800000 else sgn OR of_nat enc)"

text \<open>
  \<open>value.x * value.y\<close> on \<open>float\<close>. A NaN operand gives that NaN, made quiet, and
  infinity times zero gives the default NaN (the x86-64 choice of payloads; the standard
  leaves them open).
\<close>

definition fmul :: "f32 \<Rightarrow> f32 \<Rightarrow> f32" where
  "fmul a b =
     (let s = (f_sign a \<noteq> f_sign b)
      in if is_nan a then a OR 0x00400000
         else if is_nan b then b OR 0x00400000
         else if is_inf a \<or> is_inf b then
           (if f_mag a = 0 \<or> f_mag b = 0 then 0xFFC00000
            else if s then 0xFF800000 else 0x7F800000)
         else f_round s (f_mant a * f_mant b) (int (f_scale a) + int (f_scale b) - 149))"

subsection \<open>The two records\<close>

record Point =
  x :: f32
  y :: f32

record Point3 =
  x :: f32
  y :: f32
  z :: f32

subsection \<open>\<open>std::cin\<close> and the formatted extraction of a \<open>float\<close>\<close>

text \<open>
  The stream is the text not yet read and its two state bits (\<open>badbit\<close> is never set by
  an extraction from a string of characters). The library's number facets are not part
  of the repository, so they are parameters: \<open>scan_float\<close> says how many of the
  characters in front belong to the number field, \<open>conv_float\<close> converts the field (the
  value it stores and whether the conversion succeeded), \<open>put_float\<close> formats a
  \<open>float\<close> for output. Everything proved below holds for every choice of them.
\<close>

record istream =
  buf :: string
  eofbit :: bool
  failbit :: bool

record num_facets =
  scan_float :: "string \<Rightarrow> nat"
  conv_float :: "string \<Rightarrow> f32 \<times> bool"
  put_float :: "f32 \<Rightarrow> string"

definition good :: "istream \<Rightarrow> bool" where
  "good s = (\<not> eofbit s \<and> \<not> failbit s)"

definition fail :: "istream \<Rightarrow> bool" where
  "fail s = failbit s"

definition isspace :: "char \<Rightarrow> bool" where
  "isspace c = (c = CHR 0x20 \<or> (9 \<le> (of_char c :: nat) \<and> (of_char c :: nat) \<le> 13))"

text \<open>
  \<open>istr >> f\<close> for a \<open>float\<close>. The sentry fails on a stream that is not good, and at
  the end of input after the white space; then the field is scanned and converted. An
  empty field never converts. \<open>eofbit\<close> is set when the scan reached the end of the text.
\<close>

definition get_float :: "num_facets \<Rightarrow> istream \<Rightarrow> f32 \<Rightarrow> istream \<times> f32" where
  "get_float F s v =
     (if \<not> good s then (s\<lparr>failbit := True\<rparr>, v)
      else
        let b = dropWhile isspace (buf s)
        in if b = [] then (s\<lparr>buf := [], eofbit := True, failbit := True\<rparr>, v)
           else
             let n = scan_float F b;
                 rest = drop n b;
                 (r, ok) = (if n = 0 then (0, False) else conv_float F (take n b))
             in (s\<lparr>buf := rest, eofbit := (rest = []), failbit := \<not> ok\<rparr>, r))"

text \<open>\<open>operator>>(std::istream&, Point&)\<close>, line 24: \<open>istr >> point.x >> point.y\<close>.\<close>

definition extract_Point :: "num_facets \<Rightarrow> istream \<Rightarrow> Point \<Rightarrow> istream \<times> Point" where
  "extract_Point F s p =
     (let (s1, vx) = get_float F s (Point.x p);
          (s2, vy) = get_float F s1 (Point.y p)
      in (s2, \<lparr>Point.x = vx, Point.y = vy\<rparr>))"

text \<open>
  \<open>operator<<(std::ostream&, const Point3&)\<close>, line 28. The output stream is the text
  written so far.
\<close>

definition insert_Point3 :: "num_facets \<Rightarrow> string \<Rightarrow> Point3 \<Rightarrow> string" where
  "insert_Point3 F out p =
     out @ put_float F (Point3.x p) @ '' '' @ put_float F (Point3.y p) @ '' '' @ put_float F (z p)"

subsection \<open>The pipeline \<open>points\<close>\<close>

text \<open>The constant \<open>20.0f\<close> and the two lambdas of lines 35 to 40.\<close>

definition twenty :: f32 where
  "twenty = 0x41A00000"

definition filter_pred :: "Point \<Rightarrow> bool" where
  "filter_pred v = flt (Point.x v) twenty"

definition transform_fn :: "Point \<Rightarrow> Point3" where
  "transform_fn v = \<lparr>Point3.x = Point.x v, Point3.y = fmul (Point.x v) (Point.y v), z = Point.y v\<rparr>"

text \<open>
  An iterator of \<open>views::istream<Point>\<close> is the stream together with the view's one
  cached object: \<open>begin()\<close> and \<open>++\<close> both run \<open>stream >> object\<close>, \<open>*\<close> reads the
  object, and the iterator equals the sentinel when the stream has failed. \<open>fuel\<close> bounds
  the extractions still possible.
\<close>

type_synonym istream_iter = "istream \<times> Point"

definition fuel :: "istream \<Rightarrow> nat" where
  "fuel s = (if fail s then 0 else Suc (length (buf s)))"

lemma get_float_fail: "fail s \<Longrightarrow> get_float F s v = (s, v)"
  by (simp add: get_float_def fail_def good_def)

lemma get_float_fuel: "\<not> fail s \<Longrightarrow> fuel (fst (get_float F s v)) < fuel s"
proof -
  assume nf: "\<not> fail s"
  let ?b = "dropWhile isspace (buf s)"
  have len: "length ?b \<le> length (buf s)"
    by (rule length_dropWhile_le)
  show ?thesis
  proof (cases "good s \<and> ?b \<noteq> [] \<and> scan_float F ?b \<noteq> 0")
    case True
    then have "0 < length ?b" and "0 < scan_float F ?b"
      by simp_all
    then have "length ?b - scan_float F ?b < length (buf s)"
      using len by arith
    with True nf show ?thesis
      by (auto simp: get_float_def fuel_def fail_def Let_def split: prod.splits)
  next
    case False
    with nf show ?thesis
      by (auto simp: get_float_def fuel_def fail_def Let_def split: prod.splits)
  qed
qed

lemma get_float_fuel_le: "fuel (fst (get_float F s v)) \<le> fuel s"
  by (cases "fail s") (simp add: get_float_fail, metis get_float_fuel less_imp_le)

lemma extract_Point_fail: "fail s \<Longrightarrow> extract_Point F s p = (s, p)"
  by (simp add: extract_Point_def get_float_fail)

lemma extract_Point_fuel: "\<not> fail s \<Longrightarrow> fuel (fst (extract_Point F s p)) < fuel s"
proof -
  assume nf: "\<not> fail s"
  obtain s1 vx where g1: "get_float F s (Point.x p) = (s1, vx)"
    by (cases "get_float F s (Point.x p)")
  obtain s2 vy where g2: "get_float F s1 (Point.y p) = (s2, vy)"
    by (cases "get_float F s1 (Point.y p)")
  have "fuel s1 < fuel s"
    using get_float_fuel [OF nf, of F "Point.x p"] g1 by simp
  moreover have "fuel s2 \<le> fuel s1"
    using get_float_fuel_le [of F s1 "Point.y p"] g2 by simp
  ultimately show ?thesis
    by (simp add: extract_Point_def g1 g2)
qed

text \<open>
  \<open>views::filter\<close>: \<open>ranges::find_if\<close> steps the underlying iterator until it is at the
  end or at an element the predicate accepts. \<open>begin()\<close> of the filter view runs it from
  \<open>begin()\<close> of the stream view, \<open>++\<close> from the next element; the stream view is an input
  range, so no \<open>begin()\<close> is cached.
\<close>

function find_if :: "num_facets \<Rightarrow> istream_iter \<Rightarrow> istream_iter" where
  "find_if F (s, p) =
     (if fail s \<or> filter_pred p then (s, p) else find_if F (extract_Point F s p))"
  by pat_completeness auto
termination
proof (relation "measure (\<lambda>(F, s, p). fuel s)")
  show "wf (measure (\<lambda>(F, s, p). fuel s))"
    by simp
next
  fix F :: num_facets and s :: istream and p :: Point
  assume "\<not> (fail s \<or> filter_pred p)"
  then have "fuel (fst (extract_Point F s p)) < fuel s"
    by (simp add: extract_Point_fuel)
  then show "((F, extract_Point F s p), (F, s, p)) \<in> measure (\<lambda>(F, s, p). fuel s)"
    by (cases "extract_Point F s p") simp
qed

declare find_if.simps [simp del]

definition points_begin :: "num_facets \<Rightarrow> istream_iter \<Rightarrow> istream_iter" where
  "points_begin F it = find_if F (extract_Point F (fst it) (snd it))"

definition points_incr :: "num_facets \<Rightarrow> istream_iter \<Rightarrow> istream_iter" where
  "points_incr F it = find_if F (extract_Point F (fst it) (snd it))"

text \<open>
  \<open>views::drop(n)\<close>: its \<open>begin()\<close> is \<open>ranges::next(begin, n, end)\<close>, which steps at
  most \<open>n\<close> times and stops at the end.
\<close>

fun ranges_next :: "num_facets \<Rightarrow> nat \<Rightarrow> istream_iter \<Rightarrow> istream_iter" where
  "ranges_next F 0 it = it"
| "ranges_next F (Suc n) it =
     (if fail (fst it) then it else ranges_next F n (points_incr F it))"

definition drop_begin :: "num_facets \<Rightarrow> nat \<Rightarrow> istream_iter \<Rightarrow> istream_iter" where
  "drop_begin F n it = ranges_next F n (points_begin F it)"

lemma find_if_fuel: "fuel (fst (find_if F it)) \<le> fuel (fst it)"
proof (induction F it rule: find_if.induct)
  case (1 F s p)
  show ?case
  proof (cases "fail s \<or> filter_pred p")
    case True
    then show ?thesis by (simp add: find_if.simps)
  next
    case False
    then have "fuel (fst (find_if F (extract_Point F s p))) \<le> fuel (fst (extract_Point F s p))"
      using "1.IH" by simp
    moreover have "fuel (fst (extract_Point F s p)) < fuel s"
      using False by (simp add: extract_Point_fuel)
    ultimately show ?thesis
      using False by (simp add: find_if.simps)
  qed
qed

lemma points_incr_fuel: "\<not> fail (fst it) \<Longrightarrow> fuel (fst (points_incr F it)) < fuel (fst it)"
  using find_if_fuel [of F "extract_Point F (fst it) (snd it)"]
    extract_Point_fuel [of "fst it" F "snd it"]
  by (simp add: points_incr_def)

text \<open>
  \<open>ranges::copy\<close> over \<open>points\<close> from a position: while the iterator is not at the end,
  the output iterator is assigned \<open>*it\<close>, which for the transform view is the lambda
  applied to the element, and the iterator is incremented. \<open>emit\<close> is the assignment
  through the output iterator.
\<close>

function rng_copy ::
  "num_facets \<Rightarrow> ('o \<Rightarrow> Point3 \<Rightarrow> 'o) \<Rightarrow> istream_iter \<Rightarrow> 'o \<Rightarrow> istream_iter \<times> 'o" where
  "rng_copy F emit (s, p) out =
     (if fail s then ((s, p), out)
      else rng_copy F emit (points_incr F (s, p)) (emit out (transform_fn p)))"
  by pat_completeness auto
termination
proof (relation "measure (\<lambda>(F, emit, it, out). fuel (fst it))")
  show "wf (measure (\<lambda>(F, emit, it, out). fuel (fst it)))"
    by simp
next
  fix F :: num_facets and emit :: "'o \<Rightarrow> Point3 \<Rightarrow> 'o"
    and s :: istream and p :: Point and out :: 'o
  assume "\<not> fail s"
  then have "fuel (fst (points_incr F (s, p))) < fuel s"
    using points_incr_fuel [of "(s, p)" F] by simp
  then show "((F, emit, points_incr F (s, p), emit out (transform_fn p)), (F, emit, (s, p), out))
      \<in> measure (\<lambda>(F, emit, it, out). fuel (fst it))"
    by simp
qed

declare rng_copy.simps [simp del]

text \<open>
  The two output iterators of the program: \<open>std::ostream_iterator<Point3>(std::cout, "\n")\<close>
  writes the record and then the delimiter; \<open>std::back_inserter\<close> appends to the vector.
\<close>

definition ostream_iterator_assign :: "num_facets \<Rightarrow> string \<Rightarrow> Point3 \<Rightarrow> string" where
  "ostream_iterator_assign F out p = insert_Point3 F out p @ [CHR 0x0A]"

definition back_inserter_assign :: "Point3 list \<Rightarrow> Point3 \<Rightarrow> Point3 list" where
  "back_inserter_assign vec p = vec @ [p]"

text \<open>One line of the output: the three fields, a space between them, and the newline.\<close>

definition output_line :: "num_facets \<Rightarrow> Point3 \<Rightarrow> string" where
  "output_line F q =
     put_float F (Point3.x q) @ '' '' @ put_float F (Point3.y q) @ '' '' @ put_float F (z q)
       @ [CHR 0x0A]"

text \<open>
  Lines 34 to 59 of \<open>main\<close>: the text the first \<open>ranges::copy\<close> writes, the vector the
  second one fills, and the stream they leave. \<open>points | views::drop(1)\<close> holds a copy
  of \<open>points\<close>, so each traversal starts from the view's value-initialised object; both
  read the one \<open>std::cin\<close>. The type names that \<open>print\<close> writes before and after
  come from a header outside the file and read nothing; \<open>cout\<close> is the text of the copy
  alone.
\<close>

record program =
  cin :: istream
  cout :: string
  cached_points :: "Point3 list"

definition open_stdin :: "string \<Rightarrow> istream" where
  "open_stdin inp = \<lparr>buf = inp, eofbit = False, failbit = False\<rparr>"

definition object0 :: Point where
  "object0 = \<lparr>Point.x = 0, Point.y = 0\<rparr>"

definition main_copies :: "num_facets \<Rightarrow> string \<Rightarrow> program" where
  "main_copies F inp =
     (let (it1, out) =
            rng_copy F (ostream_iterator_assign F) (drop_begin F 1 (open_stdin inp, object0)) [];
          (it2, vec) =
            rng_copy F back_inserter_assign (points_begin F (fst it1, object0)) []
      in \<lparr>cin = fst it2, cout = out, cached_points = vec\<rparr>)"

text \<open>
  What one full traversal of the pipeline, and of the stream view under it, delivers
  from a stream: the program never collects either of them, they are what the claims
  speak about.
\<close>

definition points_of :: "num_facets \<Rightarrow> istream \<Rightarrow> Point3 list" where
  "points_of F s = snd (rng_copy F back_inserter_assign (points_begin F (s, object0)) [])"

function istream_rest :: "num_facets \<Rightarrow> istream_iter \<Rightarrow> Point list" where
  "istream_rest F (s, p) =
     (if fail s then [] else p # istream_rest F (extract_Point F s p))"
  by pat_completeness auto
termination
proof (relation "measure (\<lambda>(F, s, p). fuel s)")
  show "wf (measure (\<lambda>(F, s, p). fuel s))"
    by simp
next
  fix F :: num_facets and s :: istream and p :: Point
  assume "\<not> fail s"
  then have "fuel (fst (extract_Point F s p)) < fuel s"
    by (simp add: extract_Point_fuel)
  then show "((F, extract_Point F s p), (F, s, p)) \<in> measure (\<lambda>(F, s, p). fuel s)"
    by (cases "extract_Point F s p") simp
qed

declare istream_rest.simps [simp del]

definition istream_view :: "num_facets \<Rightarrow> istream \<Rightarrow> Point list" where
  "istream_view F s = istream_rest F (extract_Point F s object0)"

subsection \<open>The bounded traversal of \<open>views::iota(0)\<close>\<close>

text \<open>
  Lines 73 to 79. The counter is an \<open>int\<close> that is only ever incremented from 0; the
  model counts in the integers, and the traversal stays far below \<open>2 ^ 31\<close>. \<open>%\<close>
  truncates towards zero. The filter's \<open>find_if\<close> has no end to stop at (the sentinel of
  \<open>iota(0)\<close> is unreachable), so it is a loop that may not return.
\<close>

definition c_rem :: "int \<Rightarrow> int \<Rightarrow> int" where
  "c_rem a b = sgn a * (\<bar>a\<bar> mod \<bar>b\<bar>)"

definition iota_pred :: "int \<Rightarrow> bool" where
  "iota_pred v = (c_rem v 1 = 0)"

definition iota_fn :: "int \<Rightarrow> int" where
  "iota_fn v = v * v"

partial_function (option) iota_find_if :: "int \<Rightarrow> int option" where
  "iota_find_if v = (if iota_pred v then Some v else iota_find_if (v + 1))"

definition iota_begin :: "int option" where
  "iota_begin = iota_find_if 0"

definition iota_incr :: "int \<Rightarrow> int option" where
  "iota_incr v = iota_find_if (v + 1)"

text \<open>\<open>views::drop(2)\<close>: \<open>ranges::next(begin, 2, end)\<close>, with an end that is never met.\<close>

fun iota_next :: "nat \<Rightarrow> int \<Rightarrow> int option" where
  "iota_next 0 v = Some v"
| "iota_next (Suc n) v = (case iota_incr v of None \<Rightarrow> None | Some v' \<Rightarrow> iota_next n v')"

text \<open>
  \<open>views::take(20)\<close> under the range-based \<open>for\<close>: a counted iterator. While the count
  is not zero the body prints \<open>*it\<close>, the lambda applied to the element; then \<open>++\<close>
  steps the filter iterator and lowers the count. The list is the items printed.
\<close>

fun take_loop :: "nat \<Rightarrow> int \<Rightarrow> int list option" where
  "take_loop 0 v = Some []"
| "take_loop (Suc n) v =
     (case iota_incr v of
        None \<Rightarrow> None
      | Some v' \<Rightarrow> (case take_loop n v' of None \<Rightarrow> None | Some items \<Rightarrow> Some (iota_fn v # items)))"

definition iota_items :: "int list option" where
  "iota_items =
     (case iota_begin of
        None \<Rightarrow> None
      | Some b \<Rightarrow> (case iota_next 2 b of None \<Rightarrow> None | Some d \<Rightarrow> take_loop 20 d))"

subsection \<open>The three sorting calls\<close>

text \<open>
  Lines 113 to 119: the comparator lambda of \<open>std::sort\<close>, the projection lambda of the
  first \<open>rng::sort\<close>, and \<open>std::ranges::less\<close>, the comparator that \<open>{}\<close> selects. The
  member pointer \<open>&Point3::z\<close> of the second \<open>rng::sort\<close> is invoked as the field
  selector \<open>z\<close> itself.
\<close>

definition cmp_z :: "Point3 \<Rightarrow> Point3 \<Rightarrow> bool" where
  "cmp_z a b = flt (z a) (z b)"

definition proj_z :: "Point3 \<Rightarrow> f32" where
  "proj_z v = z v"

definition ranges_less :: "f32 \<Rightarrow> f32 \<Rightarrow> bool" where
  "ranges_less a b = flt a b"

text \<open>
  The standard leaves the algorithm of \<open>std::sort\<close> to the library. The model is the
  insertion sort that libstdc++ runs on a range of at most 16 elements: each element in
  turn goes to the front if it compares below the first one, and otherwise moves back
  from its place past every element it compares below. \<open>rng::sort\<close> is \<open>std::sort\<close>
  with the comparator applied to the projected elements.
\<close>

fun linear_insert :: "('a \<Rightarrow> 'a \<Rightarrow> bool) \<Rightarrow> 'a \<Rightarrow> 'a list \<Rightarrow> 'a list" where
  "linear_insert cmp v [] = [v]"
| "linear_insert cmp v (e # es) =
     (if cmp v e then e # linear_insert cmp v es else v # e # es)"

definition insertion_step :: "('a \<Rightarrow> 'a \<Rightarrow> bool) \<Rightarrow> 'a list \<Rightarrow> 'a \<Rightarrow> 'a list" where
  "insertion_step cmp sorted_part v =
     (case sorted_part of
        [] \<Rightarrow> [v]
      | first # _ \<Rightarrow>
          if cmp v first then v # sorted_part
          else rev (linear_insert cmp v (rev sorted_part)))"

definition std_sort :: "('a \<Rightarrow> 'a \<Rightarrow> bool) \<Rightarrow> 'a list \<Rightarrow> 'a list" where
  "std_sort cmp vec = foldl (insertion_step cmp) [] vec"

definition rng_sort :: "('k \<Rightarrow> 'k \<Rightarrow> bool) \<Rightarrow> ('a \<Rightarrow> 'k) \<Rightarrow> 'a list \<Rightarrow> 'a list" where
  "rng_sort cmp proj vec = std_sort (\<lambda>a b. cmp (proj a) (proj b)) vec"

definition sort_steps :: "Point3 list \<Rightarrow> Point3 list" where
  "sort_steps vec = rng_sort ranges_less z (rng_sort ranges_less proj_z (std_sort cmp_z vec))"

definition ascending_by_z :: "Point3 list \<Rightarrow> bool" where
  "ascending_by_z vec = sorted_wrt (\<lambda>a b. fle (z a) (z b)) vec"

subsection \<open>A sample of the number facets\<close>

text \<open>
  For the worked examples: the facets of the classic locale on fields that are unsigned
  decimal integers, and on values that are whole numbers below a million, which
  \<open>operator<<\<close> prints as plain decimal integers. A field ends at the first character
  that is not a digit (so a text that starts with another character is an empty field,
  as it is for the library), and any other value is printed as a question mark, outside
  what the sample covers.
\<close>

definition is_digit :: "char \<Rightarrow> bool" where
  "is_digit c = (48 \<le> (of_char c :: nat) \<and> (of_char c :: nat) \<le> 57)"

definition digits_val :: "string \<Rightarrow> nat" where
  "digits_val ds = foldl (\<lambda>a c. 10 * a + (of_char c - 48)) 0 ds"

definition uint_scan :: "string \<Rightarrow> nat" where
  "uint_scan b = length (takeWhile is_digit b)"

definition uint_conv :: "string \<Rightarrow> f32 \<times> bool" where
  "uint_conv field =
     (let r = f_round False (digits_val field) 149
      in if is_inf r then (0x7F7FFFFF, False) else (r, True))"

fun dec :: "nat \<Rightarrow> string" where
  "dec n =
     (if n < 10 then [''0123456789'' ! n]
      else dec (n div 10) @ [''0123456789'' ! (n mod 10)])"

declare dec.simps [simp del]

definition whole_put :: "f32 \<Rightarrow> string" where
  "whole_put w =
     (if \<not> is_nan w \<and> f_mag w mod 2 ^ 149 = 0 \<and> f_mag w div 2 ^ 149 < 10 ^ 6
      then (if f_sign w then ''-'' else []) @ dec (f_mag w div 2 ^ 149)
      else ''?'')"

definition sample_facets :: num_facets where
  "sample_facets = \<lparr>scan_float = uint_scan, conv_float = uint_conv, put_float = whole_put\<rparr>"

lemmas f32_eval = f_sign_def f_expo_def f_frac_def is_nan_def is_inf_def f_mant_def f_scale_def
  f_mag_def f_val_def flt_def fle_def fge_def fmul_def f_round_def round_shift_def bitlen.simps
  Let_def twenty_def

lemmas stream_eval = get_float_def extract_Point_def open_stdin_def good_def fail_def
  isspace_def object0_def sample_facets_def uint_scan_def is_digit_def uint_conv_def
  digits_val_def whole_put_def dec.simps

text \<open>The state of an iterator of the stream view after \<open>k\<close> extractions.\<close>

fun extract_n :: "num_facets \<Rightarrow> nat \<Rightarrow> istream_iter \<Rightarrow> istream_iter" where
  "extract_n F 0 it = it"
| "extract_n F (Suc k) it = extract_n F k (extract_Point F (fst it) (snd it))"

subsection \<open>The traversals as list functions\<close>

text \<open>
  The iterator loops above compute what \<open>filter\<close>, \<open>map\<close> and \<open>drop\<close> compute on the
  list of records the stream view delivers. A filter iterator is always at the end or at
  an element the predicate accepts.
\<close>

lemma istream_rest_fail: "fail s \<Longrightarrow> istream_rest F (s, p) = []"
  by (simp add: istream_rest.simps)

lemma istream_rest_step:
  "\<not> fail s \<Longrightarrow> istream_rest F (s, p) = p # istream_rest F (extract_Point F s p)"
  by (simp add: istream_rest.simps)

lemma find_if_at_element: "find_if F it = (s', p') \<Longrightarrow> fail s' \<or> filter_pred p'"
proof (induction F it rule: find_if.induct)
  case (1 F s p)
  then show ?case
    by (cases "fail s \<or> filter_pred p") (auto simp: find_if.simps)
qed

lemma find_if_rest:
  "filter filter_pred (istream_rest F (find_if F it)) = filter filter_pred (istream_rest F it)"
proof (induction F it rule: find_if.induct)
  case (1 F s p)
  show ?case
  proof (cases "fail s \<or> filter_pred p")
    case True
    then show ?thesis by (simp add: find_if.simps)
  next
    case False
    then have "find_if F (s, p) = find_if F (extract_Point F s p)"
      by (simp add: find_if.simps)
    moreover have "filter filter_pred (istream_rest F (s, p))
        = filter filter_pred (istream_rest F (extract_Point F s p))"
      using False by (simp add: istream_rest_step)
    ultimately show ?thesis
      using "1.IH" False by simp
  qed
qed

lemma points_incr_at_element: "points_incr F it = (s', p') \<Longrightarrow> fail s' \<or> filter_pred p'"
  unfolding points_incr_def by (rule find_if_at_element)

lemma points_incr_rest:
  "\<not> fail (fst it) \<Longrightarrow> filter_pred (snd it) \<Longrightarrow>
   filter filter_pred (istream_rest F (points_incr F it)) = tl (filter filter_pred (istream_rest F it))"
  by (cases it) (simp add: points_incr_def find_if_rest istream_rest_step)

lemma rng_copy_foldl:
  "fail (fst it) \<or> filter_pred (snd it) \<Longrightarrow>
   snd (rng_copy F emit it out)
     = foldl emit out (map transform_fn (filter filter_pred (istream_rest F it)))"
proof (induction F emit it out rule: rng_copy.induct)
  case (1 F emit s p out)
  show ?case
  proof (cases "fail s")
    case True
    then show ?thesis by (simp add: rng_copy.simps istream_rest_fail)
  next
    case False
    with "1.prems" have keep: "filter_pred p" by simp
    obtain s' p' where nxt: "points_incr F (s, p) = (s', p')"
      by (cases "points_incr F (s, p)")
    have inv: "fail (fst (points_incr F (s, p))) \<or> filter_pred (snd (points_incr F (s, p)))"
      using points_incr_at_element [OF nxt] nxt by simp
    have "snd (rng_copy F emit (s, p) out)
        = snd (rng_copy F emit (points_incr F (s, p)) (emit out (transform_fn p)))"
      using False by (simp add: rng_copy.simps)
    also have "\<dots> = foldl emit (emit out (transform_fn p))
        (map transform_fn (filter filter_pred (istream_rest F (points_incr F (s, p)))))"
      using "1.IH" [OF False inv] .
    also have "\<dots> = foldl emit out (map transform_fn (filter filter_pred (istream_rest F (s, p))))"
      using False keep points_incr_rest [of "(s, p)" F] by (simp add: istream_rest_step)
    finally show ?thesis .
  qed
qed

lemma rng_copy_fail: "fail (fst (fst (rng_copy F emit it out)))"
proof (induction F emit it out rule: rng_copy.induct)
  case (1 F emit s p out)
  then show ?case
    by (cases "fail s") (simp_all add: rng_copy.simps)
qed

lemma foldl_back_inserter: "foldl back_inserter_assign acc qs = acc @ qs"
  by (induction qs arbitrary: acc) (simp_all add: back_inserter_assign_def)

lemma points_begin_at_element:
  "fail (fst (points_begin F it)) \<or> filter_pred (snd (points_begin F it))"
  using find_if_at_element [of F "extract_Point F (fst it) (snd it)"]
  by (cases "points_begin F it") (simp add: points_begin_def)

lemma points_begin_rest:
  "filter filter_pred (istream_rest F (points_begin F (s, object0)))
     = filter filter_pred (istream_view F s)"
  by (simp add: points_begin_def istream_view_def find_if_rest)

lemma points_of_eq:
  "points_of F s = map transform_fn (filter filter_pred (istream_view F s))"
  by (simp add: points_of_def rng_copy_foldl [OF points_begin_at_element]
      foldl_back_inserter points_begin_rest)

lemma ranges_next_at_element:
  "fail (fst it) \<or> filter_pred (snd it) \<Longrightarrow>
   fail (fst (ranges_next F n it)) \<or> filter_pred (snd (ranges_next F n it))"
proof (induction n arbitrary: it)
  case 0
  then show ?case by simp
next
  case (Suc n)
  show ?case
  proof (cases "fail (fst it)")
    case True
    then show ?thesis by simp
  next
    case False
    obtain s' p' where nxt: "points_incr F it = (s', p')"
      by (cases "points_incr F it")
    have "fail (fst (points_incr F it)) \<or> filter_pred (snd (points_incr F it))"
      using points_incr_at_element [OF nxt] nxt by simp
    then show ?thesis
      using False Suc.IH by simp
  qed
qed

lemma ranges_next_rest:
  "fail (fst it) \<or> filter_pred (snd it) \<Longrightarrow>
   filter filter_pred (istream_rest F (ranges_next F n it))
     = drop n (filter filter_pred (istream_rest F it))"
proof (induction n arbitrary: it)
  case 0
  then show ?case by simp
next
  case (Suc n)
  show ?case
  proof (cases "fail (fst it)")
    case True
    then show ?thesis by (cases it) (simp add: istream_rest_fail)
  next
    case False
    with Suc.prems have keep: "filter_pred (snd it)" by simp
    obtain s' p' where nxt: "points_incr F it = (s', p')"
      by (cases "points_incr F it")
    have inv: "fail (fst (points_incr F it)) \<or> filter_pred (snd (points_incr F it))"
      using points_incr_at_element [OF nxt] nxt by simp
    have "filter filter_pred (istream_rest F (ranges_next F (Suc n) it))
        = drop n (filter filter_pred (istream_rest F (points_incr F it)))"
      using False Suc.IH [OF inv] by simp
    also have "\<dots> = drop n (tl (filter filter_pred (istream_rest F it)))"
      using points_incr_rest [OF False keep] by simp
    finally show ?thesis
      by (simp add: drop_Suc)
  qed
qed

lemma foldl_ostream_iterator:
  "foldl (ostream_iterator_assign F) out qs = out @ concat (map (output_line F) qs)"
  by (induction qs arbitrary: out)
    (simp_all add: ostream_iterator_assign_def insert_Point3_def output_line_def)

lemma drop_begin_at_element:
  "fail (fst (drop_begin F n it)) \<or> filter_pred (snd (drop_begin F n it))"
  unfolding drop_begin_def by (rule ranges_next_at_element [OF points_begin_at_element])

lemma drop_begin_rest:
  "filter filter_pred (istream_rest F (drop_begin F n (s, object0)))
     = drop n (filter filter_pred (istream_view F s))"
  unfolding drop_begin_def
  by (simp add: ranges_next_rest [OF points_begin_at_element] points_begin_rest)

lemma first_copy:
  "snd (rng_copy F (ostream_iterator_assign F) (drop_begin F n (s, object0)) [])
     = concat (map (output_line F) (drop n (points_of F s)))"
  by (simp add: rng_copy_foldl [OF drop_begin_at_element] drop_begin_rest
      foldl_ostream_iterator points_of_eq drop_map)

lemma points_begin_fail: "fail s \<Longrightarrow> points_begin F (s, p) = (s, p)"
  by (simp add: points_begin_def extract_Point_fail find_if.simps)

lemma second_copy:
  "fail s \<Longrightarrow> rng_copy F emit (points_begin F (s, p)) out = ((s, p), out)"
  by (simp add: points_begin_fail rng_copy.simps)

lemma main_copies_cout:
  "cout (main_copies F inp)
     = concat (map (output_line F) (drop 1 (points_of F (open_stdin inp))))"
proof -
  obtain it1 out where c1:
    "rng_copy F (ostream_iterator_assign F) (drop_begin F 1 (open_stdin inp, object0)) [] = (it1, out)"
    by (cases "rng_copy F (ostream_iterator_assign F) (drop_begin F 1 (open_stdin inp, object0)) []")
  obtain it2 vec where c2:
    "rng_copy F back_inserter_assign (points_begin F (fst it1, object0)) [] = (it2, vec)"
    by (cases "rng_copy F back_inserter_assign (points_begin F (fst it1, object0)) []")
  have "cout (main_copies F inp) = out"
    by (simp add: main_copies_def c1 [simplified] c2)
  moreover have "out = concat (map (output_line F) (drop 1 (points_of F (open_stdin inp))))"
    using first_copy [of F 1 "open_stdin inp"] c1 by simp
  ultimately show ?thesis by simp
qed

lemma main_copies_cached: "cached_points (main_copies F inp) = []"
proof -
  obtain it1 out where c1:
    "rng_copy F (ostream_iterator_assign F) (drop_begin F 1 (open_stdin inp, object0)) [] = (it1, out)"
    by (cases "rng_copy F (ostream_iterator_assign F) (drop_begin F 1 (open_stdin inp, object0)) []")
  have "fail (fst it1)"
    using rng_copy_fail [of F "ostream_iterator_assign F" "drop_begin F 1 (open_stdin inp, object0)" "[]"] c1
    by simp
  then have "rng_copy F back_inserter_assign (points_begin F (fst it1, object0)) []
      = ((fst it1, object0), [])"
    by (rule second_copy)
  then show ?thesis
    by (simp add: main_copies_def c1 [simplified])
qed

lemma main_copies_cin: "fail (cin (main_copies F inp))"
proof -
  obtain it1 out where c1:
    "rng_copy F (ostream_iterator_assign F) (drop_begin F 1 (open_stdin inp, object0)) [] = (it1, out)"
    by (cases "rng_copy F (ostream_iterator_assign F) (drop_begin F 1 (open_stdin inp, object0)) []")
  obtain it2 vec where c2:
    "rng_copy F back_inserter_assign (points_begin F (fst it1, object0)) [] = (it2, vec)"
    by (cases "rng_copy F back_inserter_assign (points_begin F (fst it1, object0)) []")
  have "fail (fst it2)"
    using rng_copy_fail [of F back_inserter_assign "points_begin F (fst it1, object0)" "[]"] c2
    by simp
  then show ?thesis
    by (simp add: main_copies_def c1 [simplified] c2)
qed

subsection \<open>Extractions one after the other\<close>

lemma extract_n_fail: "fail (fst it) \<Longrightarrow> extract_n F k it = it"
  by (induction k) (simp_all add: extract_Point_fail)

lemma istream_rest_at_end: "fail (fst it) \<Longrightarrow> istream_rest F it = []"
  by (cases it) (simp add: istream_rest_fail)

lemma extract_n_Suc:
  "extract_n F (Suc k) it = extract_Point F (fst (extract_n F k it)) (snd (extract_n F k it))"
  by (induction k arbitrary: it) simp_all

lemma istream_rest_extract_n:
  "\<not> fail (fst (extract_n F k it)) \<Longrightarrow> fail (fst (extract_n F (Suc k) it)) \<Longrightarrow>
   istream_rest F it = map (\<lambda>j. snd (extract_n F j it)) [0..<Suc k]"
proof (induction k arbitrary: it)
  case 0
  then show ?case
    by (cases it) (simp add: istream_rest_step istream_rest_at_end)
next
  case (Suc k)
  let ?it' = "extract_Point F (fst it) (snd it)"
  have nf: "\<not> fail (fst it)"
    using Suc.prems(1) extract_n_fail [of it F "Suc k"] by auto
  have "istream_rest F ?it' = map (\<lambda>j. snd (extract_n F j ?it')) [0..<Suc k]"
    using Suc.IH [of ?it'] Suc.prems by simp
  also have "\<dots> = map (\<lambda>j. snd (extract_n F j it)) (map Suc [0..<Suc k])"
    by simp
  finally have "istream_rest F ?it' = map (\<lambda>j. snd (extract_n F j it)) [1..<Suc (Suc k)]"
    by (simp only: map_Suc_upt One_nat_def)
  moreover have "istream_rest F it = snd it # istream_rest F ?it'"
    using nf by (cases it) (simp add: istream_rest_step)
  moreover have "[0..<Suc (Suc k)] = 0 # [1..<Suc (Suc k)]"
    by (simp add: upt_rec)
  ultimately show ?case
    by simp
qed

subsection \<open>The counter loop returns\<close>

lemma iota_pred_always: "iota_pred v"
  by (simp add: iota_pred_def c_rem_def)

lemma iota_find_if_returns: "iota_find_if v = Some v"
  by (subst iota_find_if.simps) (simp add: iota_pred_always)

lemma iota_incr_returns: "iota_incr v = Some (v + 1)"
  by (simp add: iota_incr_def iota_find_if_returns)

lemma iota_next_returns: "iota_next n v = Some (v + int n)"
  by (induction n arbitrary: v) (simp_all add: iota_incr_returns)

lemma take_loop_returns: "take_loop n v = Some (map iota_fn [v..v + int n - 1])"
proof (induction n arbitrary: v)
  case 0
  then show ?case by simp
next
  case (Suc n)
  have "[v..v + int (Suc n) - 1] = v # [v + 1..v + 1 + int n - 1]"
    by (simp add: upto_rec1)
  then show ?case
    by (simp add: iota_incr_returns Suc.IH)
qed

subsection \<open>The insertion sort\<close>

lemma mset_linear_insert: "mset (linear_insert cmp v es) = add_mset v (mset es)"
  by (induction es) simp_all

lemma mset_insertion_step: "mset (insertion_step cmp pre v) = add_mset v (mset pre)"
  by (cases pre) (simp_all add: insertion_step_def mset_linear_insert)

lemma mset_foldl_insertion_step:
  "mset (foldl (insertion_step cmp) acc vec) = mset acc + mset vec"
  by (induction vec arbitrary: acc) (simp_all add: mset_insertion_step)

lemma mset_std_sort: "mset (std_sort cmp vec) = mset vec"
  by (simp add: std_sort_def mset_foldl_insertion_step)

lemma set_std_sort: "set (std_sort cmp vec) = set vec"
  using mset_std_sort [of cmp vec] by (metis set_mset_mset)

lemma set_linear_insert: "set (linear_insert cmp v es) = insert v (set es)"
  using mset_linear_insert [of cmp v es] by (metis set_mset_mset set_mset_add_mset_insert)

text \<open>
  With a comparator that is \<open><\<close> on an integer key of the elements, the insertion
  sort delivers the elements in ascending order of the key.
\<close>

lemma linear_insert_descending:
  fixes k :: "'a \<Rightarrow> int"
  assumes "\<And>e. e \<in> set es \<Longrightarrow> cmp v e = (k v < k e)"
    and "sorted_wrt (\<lambda>a b. k b \<le> k a) es"
  shows "sorted_wrt (\<lambda>a b. k b \<le> k a) (linear_insert cmp v es)"
  using assms
proof (induction es)
  case Nil
  then show ?case by simp
next
  case (Cons e es)
  show ?case
  proof (cases "cmp v e")
    case True
    then have "k v < k e"
      using Cons.prems(1) by simp
    moreover have "sorted_wrt (\<lambda>a b. k b \<le> k a) (linear_insert cmp v es)"
      using Cons by simp
    ultimately show ?thesis
      using True Cons.prems(2) by (auto simp: set_linear_insert)
  next
    case False
    then have "k e \<le> k v"
      using Cons.prems(1) [of e] by simp
    then show ?thesis
      using False Cons.prems(2) by auto
  qed
qed

lemma insertion_step_ascending:
  fixes k :: "'a \<Rightarrow> int"
  assumes "\<And>e. e \<in> set pre \<Longrightarrow> cmp v e = (k v < k e)"
    and "sorted_wrt (\<lambda>a b. k a \<le> k b) pre"
  shows "sorted_wrt (\<lambda>a b. k a \<le> k b) (insertion_step cmp pre v)"
proof (cases pre)
  case Nil
  then show ?thesis by (simp add: insertion_step_def)
next
  case (Cons first rest)
  show ?thesis
  proof (cases "cmp v first")
    case True
    then have "k v < k first"
      using assms(1) Cons by simp
    then have "\<forall>e\<in>set pre. k v \<le> k e"
      using assms(2) Cons by auto
    then show ?thesis
      using True Cons assms(2) by (simp add: insertion_step_def)
  next
    case False
    have "sorted_wrt (\<lambda>a b. k b \<le> k a) (rev pre)"
      using assms(2) by (simp add: sorted_wrt_rev)
    then have "sorted_wrt (\<lambda>a b. k b \<le> k a) (linear_insert cmp v (rev pre))"
      using assms(1) by (intro linear_insert_descending) simp_all
    then have "sorted_wrt (\<lambda>a b. k a \<le> k b) (rev (linear_insert cmp v (rev pre)))"
      by (simp add: sorted_wrt_rev)
    then show ?thesis
      using False Cons by (simp add: insertion_step_def)
  qed
qed

lemma foldl_insertion_step_ascending:
  fixes k :: "'a \<Rightarrow> int"
  assumes "\<And>a b. a \<in> set acc \<union> set vec \<Longrightarrow> b \<in> set acc \<union> set vec \<Longrightarrow> cmp a b = (k a < k b)"
    and "sorted_wrt (\<lambda>a b. k a \<le> k b) acc"
  shows "sorted_wrt (\<lambda>a b. k a \<le> k b) (foldl (insertion_step cmp) acc vec)"
  using assms
proof (induction vec arbitrary: acc)
  case Nil
  then show ?case by simp
next
  case (Cons v vec)
  have step: "sorted_wrt (\<lambda>a b. k a \<le> k b) (insertion_step cmp acc v)"
    using Cons.prems by (intro insertion_step_ascending) simp_all
  have "set (insertion_step cmp acc v) = insert v (set acc)"
    using mset_insertion_step [of cmp acc v] by (metis set_mset_mset set_mset_add_mset_insert)
  then show ?case
    using Cons.IH [of "insertion_step cmp acc v"] Cons.prems(1) step by simp
qed

lemma std_sort_ascending:
  fixes k :: "'a \<Rightarrow> int"
  assumes "\<And>a b. a \<in> set vec \<Longrightarrow> b \<in> set vec \<Longrightarrow> cmp a b = (k a < k b)"
  shows "sorted_wrt (\<lambda>a b. k a \<le> k b) (std_sort cmp vec)"
  unfolding std_sort_def using assms by (intro foldl_insertion_step_ascending) simp_all

text \<open>
  For records whose \<open>z\<close> is not a NaN the three comparators are \<open><\<close> on the key
  \<open>f_val (z p)\<close>; they are one and the same function in any case.
\<close>

lemma cmp_z_key: "\<not> is_nan (z a) \<Longrightarrow> \<not> is_nan (z b) \<Longrightarrow> cmp_z a b = (f_val (z a) < f_val (z b))"
  by (simp add: cmp_z_def flt_def)

lemma ascending_by_z_key:
  "\<forall>p\<in>set vec. \<not> is_nan (z p) \<Longrightarrow>
   ascending_by_z vec = sorted_wrt (\<lambda>a b. f_val (z a) \<le> f_val (z b)) vec"
  unfolding ascending_by_z_def
  by (rule iffI; erule sorted_wrt_mono_rel [rotated]) (simp_all add: fle_def)

lemma std_sort_cmp_z:
  assumes "\<forall>p\<in>set vec. \<not> is_nan (z p)"
  shows "ascending_by_z (std_sort cmp_z vec)"
proof -
  have "sorted_wrt (\<lambda>a b. f_val (z a) \<le> f_val (z b)) (std_sort cmp_z vec)"
    using assms by (intro std_sort_ascending) (simp add: cmp_z_key)
  moreover have "\<forall>p\<in>set (std_sort cmp_z vec). \<not> is_nan (z p)"
    using assms by (simp add: set_std_sort)
  ultimately show ?thesis
    by (simp add: ascending_by_z_key)
qed

lemma rng_sort_proj_z: "rng_sort ranges_less proj_z vec = std_sort cmp_z vec"
proof -
  have "(\<lambda>a b. ranges_less (proj_z a) (proj_z b)) = cmp_z"
    by (intro ext) (simp add: ranges_less_def proj_z_def cmp_z_def)
  then show ?thesis by (simp add: rng_sort_def)
qed

lemma rng_sort_member_z: "rng_sort ranges_less z vec = std_sort cmp_z vec"
proof -
  have "(\<lambda>a b. ranges_less (z a) (z b)) = cmp_z"
    by (intro ext) (simp add: ranges_less_def cmp_z_def)
  then show ?thesis by (simp add: rng_sort_def)
qed



lemma ascending_perm_unique:
  assumes nn: "\<forall>p\<in>set vec. \<not> is_nan (z p)"
    and dist: "distinct (map (\<lambda>p. f_val (z p)) vec)"
    and perm: "mset ws = mset vec"
    and asc: "ascending_by_z ws"
  shows "ws = std_sort cmp_z vec"
proof -
  let ?k = "\<lambda>p. f_val (z p)"
  let ?r = "std_sort cmp_z vec"
  have sets: "set ws = set vec" "set ?r = set vec"
    using perm by (metis set_mset_mset, simp add: set_std_sort)
  have inj: "inj_on ?k (set vec)"
    using dist by (simp add: distinct_map)
  have "mset (map ?k ws) = mset (map ?k vec)" "mset (map ?k ?r) = mset (map ?k vec)"
    using perm by (simp_all add: mset_std_sort)
  then have d: "distinct (map ?k ws)" "distinct (map ?k ?r)"
    using dist by (metis mset_eq_imp_distinct_iff)+
  have "sorted (map ?k ws)"
    using asc nn sets by (simp add: ascending_by_z_key sorted_map)
  moreover have "sorted (map ?k ?r)"
    using std_sort_cmp_z [OF nn] nn sets by (simp add: ascending_by_z_key sorted_map)
  ultimately show ?thesis
    using inj d sets by (intro map_sorted_distinct_set_unique [of ?k]) simp_all
qed

subsection \<open>Worked runs on the sample facets\<close>

lemma sample_view_two:
  "istream_view sample_facets (open_stdin ''1 2\<newline>3 4\<newline>'')
     = [\<lparr>Point.x = 0x3F800000, Point.y = 0x40000000\<rparr>,
        \<lparr>Point.x = 0x40400000, Point.y = 0x40800000\<rparr>]"
  by (simp add: istream_view_def istream_rest.simps stream_eval f32_eval)

lemma sample_points_two:
  "points_of sample_facets (open_stdin ''1 2\<newline>3 4\<newline>'')
     = [\<lparr>Point3.x = 0x3F800000, Point3.y = 0x40000000, z = 0x40000000\<rparr>,
        \<lparr>Point3.x = 0x40400000, Point3.y = 0x41400000, z = 0x40800000\<rparr>]"
  by (simp add: points_of_eq sample_view_two filter_pred_def transform_fn_def f32_eval)

lemma sample_view_20:
  "istream_view sample_facets (open_stdin ''20 1\<newline>3 4\<newline>'')
     = [\<lparr>Point.x = 0x41A00000, Point.y = 0x3F800000\<rparr>,
        \<lparr>Point.x = 0x40400000, Point.y = 0x40800000\<rparr>]"
  by (simp add: istream_view_def istream_rest.simps stream_eval f32_eval)

lemma sample_extract_malformed:
  "extract_n sample_facets (Suc 0) (open_stdin ''1 2\<newline>3 4\<newline>x 5\<newline>6 7\<newline>'', object0)
     = (\<lparr>buf = ''\<newline>3 4\<newline>x 5\<newline>6 7\<newline>'', eofbit = False, failbit = False\<rparr>,
        \<lparr>Point.x = 0x3F800000, Point.y = 0x40000000\<rparr>)"
  "extract_n sample_facets (Suc (Suc 0)) (open_stdin ''1 2\<newline>3 4\<newline>x 5\<newline>6 7\<newline>'', object0)
     = (\<lparr>buf = ''\<newline>x 5\<newline>6 7\<newline>'', eofbit = False, failbit = False\<rparr>,
        \<lparr>Point.x = 0x40400000, Point.y = 0x40800000\<rparr>)"
  "extract_n sample_facets (Suc (Suc (Suc 0))) (open_stdin ''1 2\<newline>3 4\<newline>x 5\<newline>6 7\<newline>'', object0)
     = (\<lparr>buf = ''x 5\<newline>6 7\<newline>'', eofbit = False, failbit = True\<rparr>,
        \<lparr>Point.x = 0, Point.y = 0x40800000\<rparr>)"
  by (simp_all add: stream_eval f32_eval)

lemmas sort_eval = sort_steps_def rng_sort_def std_sort_def insertion_step_def cmp_z_def
  ranges_less_def proj_z_def

subsection \<open>Facts about the two lambdas\<close>

lemma fge_not_flt: "fge a b \<Longrightarrow> \<not> flt a b"
  by (simp add: fge_def flt_def)

lemma transform_fn_inj: "transform_fn p = transform_fn q \<Longrightarrow> p = q"
  by (cases p, cases q) (simp add: transform_fn_def)

lemma not_kept_not_derived: "\<not> filter_pred p \<Longrightarrow> transform_fn p \<notin> set (points_of F s)"
proof
  assume np: "\<not> filter_pred p" and "transform_fn p \<in> set (points_of F s)"
  then obtain q where "q \<in> set (filter filter_pred (istream_view F s))"
    and "transform_fn q = transform_fn p"
    by (auto simp: points_of_eq)
  then have "filter_pred p"
    using transform_fn_inj [of q p] by simp
  with np show False by simp
qed

lemma f_val_twenty: "f_val twenty = 20 * 2 ^ 149"
  by (simp add: f32_eval)

lemma twenty_not_nan: "\<not> is_nan twenty"
  by (simp add: f32_eval)

section \<open>The claims\<close>

subsection \<open>C1: what the first copy writes\<close>

text \<open>
  C1 as stated says that every derived record is written to standard output. The
  copy of line 53 traverses \<open>points | views::drop(1)\<close>, so the first derived record is
  never written. On the input of two pairs \<open>1 2\<close> and \<open>3 4\<close> there are two derived
  records, and writing each would give two lines; the program writes only the second.
\<close>

theorem first_record_not_written:
  "concat (map (output_line sample_facets)
       (points_of sample_facets (open_stdin ''1 2\<newline>3 4\<newline>'')))
     = ''1 2 2\<newline>3 12 4\<newline>''
   \<and> cout (main_copies sample_facets ''1 2\<newline>3 4\<newline>'') = ''3 12 4\<newline>''"
proof -
  have put:
    "output_line sample_facets \<lparr>Point3.x = 0x3F800000, Point3.y = 0x40000000, z = 0x40000000\<rparr>
       = ''1 2 2\<newline>''"
    "output_line sample_facets \<lparr>Point3.x = 0x40400000, Point3.y = 0x41400000, z = 0x40800000\<rparr>
       = ''3 12 4\<newline>''"
    by (simp_all add: output_line_def sample_facets_def whole_put_def dec.simps f32_eval)
  show ?thesis
    by (simp only: main_copies_cout sample_points_two) (simp add: put)
qed

text \<open>
  C1, amended: for every input text, the program reads pairs until an extraction fails
  (the stream is left in the failed state) and writes every derived record except the
  first one to standard output, each as its three fields separated by single spaces and
  followed by a newline, in the order of the input.
\<close>

theorem first_copy_writes_all_but_first:
  "cout (main_copies F inp)
     = concat (map (output_line F) (drop 1 (points_of F (open_stdin inp))))
   \<and> fail (cin (main_copies F inp))"
  using main_copies_cout main_copies_cin by simp

subsection \<open>C2: the derived record\<close>

text \<open>
  C2: the records that a traversal of \<open>points\<close> delivers are, in order, the records
  \<open>(x, x * y, y)\<close> of the pairs \<open>(x, y)\<close> read from the stream that pass the filter
  \<open>x < 20.0f\<close>: first field \<open>x\<close>, second field the \<open>float\<close> product, third field \<open>y\<close>.
\<close>

theorem points_are_x_xy_y:
  "points_of F s
     = map (\<lambda>p. \<lparr>Point3.x = Point.x p, Point3.y = fmul (Point.x p) (Point.y p), z = Point.y p\<rparr>)
         (filter (\<lambda>p. flt (Point.x p) twenty) (istream_view F s))"
proof -
  have "transform_fn
      = (\<lambda>p. \<lparr>Point3.x = Point.x p, Point3.y = fmul (Point.x p) (Point.y p), z = Point.y p\<rparr>)"
    by (rule ext) (simp add: transform_fn_def)
  moreover have "filter_pred = (\<lambda>p. flt (Point.x p) twenty)"
    by (rule ext) (simp add: filter_pred_def)
  ultimately show ?thesis
    by (simp add: points_of_eq)
qed

subsection \<open>C3: the third field\<close>

text \<open>
  C3 as stated says that the third field of the derived record is the product of the
  two source fields. The pair \<open>(2.0, 3.0)\<close> passes the filter; the third field of its
  derived record is \<open>3.0\<close>, and the product is \<open>6.0\<close>.
\<close>

theorem third_field_is_not_product:
  "filter_pred \<lparr>Point.x = 0x40000000, Point.y = 0x40400000\<rparr>
   \<and> z (transform_fn \<lparr>Point.x = 0x40000000, Point.y = 0x40400000\<rparr>) = 0x40400000
   \<and> fmul 0x40000000 0x40400000 = 0x40C00000"
  by (simp add: filter_pred_def transform_fn_def f32_eval)

text \<open>
  C3, amended: for every pair that passes the filter, the third field of the derived
  record is the second source field \<open>y\<close>; the product of the two source fields is the
  second field of the derived record.
\<close>

theorem third_field_is_y:
  "map z (points_of F s) = map Point.y (filter filter_pred (istream_view F s))
   \<and> map Point3.y (points_of F s)
       = map (\<lambda>p. fmul (Point.x p) (Point.y p)) (filter filter_pred (istream_view F s))"
  by (simp add: points_of_eq transform_fn_def comp_def)

subsection \<open>C4: records with \<open>x >= 20\<close>\<close>

text \<open>
  C4: a pair whose first coordinate compares \<open>>= 20.0f\<close> fails the filter predicate, is
  not among the elements the filter view passes on to the transform, and its derived
  record is not among the records that a traversal of \<open>points\<close> delivers.
\<close>

theorem x_ge_20_excluded:
  "fge (Point.x p) twenty \<Longrightarrow>
   \<not> filter_pred p
   \<and> p \<notin> set (filter filter_pred (istream_view F s))
   \<and> transform_fn p \<notin> set (points_of F s)"
proof -
  assume ge: "fge (Point.x p) twenty"
  then have np: "\<not> filter_pred p"
    by (simp add: filter_pred_def fge_not_flt)
  then have "p \<notin> set (filter filter_pred (istream_view F s))"
    by simp
  moreover have "transform_fn p \<notin> set (points_of F s)"
    using np by (rule not_kept_not_derived)
  ultimately show ?thesis
    using np by simp
qed

text \<open>
  The input \<open>20 1\<close>, \<open>3 4\<close>: the pair \<open>(20, 1)\<close> is read from the stream and is
  excluded; the one derived record is that of \<open>(3, 4)\<close>.
\<close>

theorem x_ge_20_excluded_witness:
  "\<lparr>Point.x = 0x41A00000, Point.y = 0x3F800000\<rparr>
      \<in> set (istream_view sample_facets (open_stdin ''20 1\<newline>3 4\<newline>''))
   \<and> fge 0x41A00000 twenty
   \<and> \<not> filter_pred \<lparr>Point.x = 0x41A00000, Point.y = 0x3F800000\<rparr>
   \<and> transform_fn \<lparr>Point.x = 0x41A00000, Point.y = 0x3F800000\<rparr>
       \<notin> set (points_of sample_facets (open_stdin ''20 1\<newline>3 4\<newline>''))
   \<and> points_of sample_facets (open_stdin ''20 1\<newline>3 4\<newline>'')
       = [\<lparr>Point3.x = 0x40400000, Point3.y = 0x41400000, z = 0x40800000\<rparr>]"
proof -
  have ge: "fge (Point.x \<lparr>Point.x = 0x41A00000, Point.y = 0x3F800000\<rparr>) twenty"
    by (simp add: f32_eval)
  have "points_of sample_facets (open_stdin ''20 1\<newline>3 4\<newline>'')
       = [\<lparr>Point3.x = 0x40400000, Point3.y = 0x41400000, z = 0x40800000\<rparr>]"
    by (simp add: points_of_eq sample_view_20 filter_pred_def transform_fn_def f32_eval)
  then show ?thesis
    using x_ge_20_excluded [OF ge, of sample_facets "open_stdin ''20 1\<newline>3 4\<newline>''"] ge
    by (simp add: sample_view_20)
qed

subsection \<open>C5: the second traversal\<close>

text \<open>
  C5: for every input text, the second copy (line 59), which traverses \<open>points\<close> again
  after the first copy has run the stream into its failed state, appends nothing:
  \<open>cached_points\<close> is empty after it.
\<close>

theorem second_traversal_empty: "cached_points (main_copies F inp) = []"
  by (rule main_copies_cached)

subsection \<open>C6: malformed input\<close>

text \<open>
  C6: when an extraction of a record fails, the stream view ends there. If the first
  \<open>k\<close> extractions succeed and the next one fails, be it on a text that is no number
  or at the end of the input, the view delivers exactly the \<open>k\<close> records read before,
  the pipeline delivers the derived records of those that pass the filter, the first
  copy writes them (all but the first) as it does on any input, and a further
  extraction finds the stream failed and changes nothing, whatever text is left.
\<close>

theorem failed_extraction_ends_the_stream:
  "\<not> fail (fst (extract_n F k (open_stdin inp, object0))) \<Longrightarrow>
   fail (fst (extract_n F (Suc k) (open_stdin inp, object0))) \<Longrightarrow>
   istream_view F (open_stdin inp)
     = map (\<lambda>j. snd (extract_n F j (open_stdin inp, object0))) [1..<Suc k]
   \<and> points_of F (open_stdin inp)
       = map transform_fn (filter filter_pred
           (map (\<lambda>j. snd (extract_n F j (open_stdin inp, object0))) [1..<Suc k]))
   \<and> cout (main_copies F inp)
       = concat (map (output_line F) (drop 1 (map transform_fn (filter filter_pred
           (map (\<lambda>j. snd (extract_n F j (open_stdin inp, object0))) [1..<Suc k])))))
   \<and> extract_n F (Suc (Suc k)) (open_stdin inp, object0)
       = extract_n F (Suc k) (open_stdin inp, object0)"
proof -
  let ?s = "open_stdin inp"
  assume ok: "\<not> fail (fst (extract_n F k (?s, object0)))"
    and bad: "fail (fst (extract_n F (Suc k) (?s, object0)))"
  let ?it1 = "extract_Point F ?s object0"
  have view: "istream_view F ?s = map (\<lambda>j. snd (extract_n F j (?s, object0))) [1..<Suc k]"
  proof (cases k)
    case 0
    with bad have "fail (fst ?it1)" by simp
    then have "istream_rest F ?it1 = []"
      by (rule istream_rest_at_end)
    with 0 show ?thesis by (simp add: istream_view_def)
  next
    case (Suc k')
    have "istream_rest F ?it1 = map (\<lambda>j. snd (extract_n F j ?it1)) [0..<Suc k']"
      using istream_rest_extract_n [of F k' ?it1] ok bad Suc by simp
    also have "\<dots> = map (\<lambda>j. snd (extract_n F j (?s, object0))) (map Suc [0..<Suc k'])"
      by simp
    finally show ?thesis
      using Suc by (simp only: istream_view_def map_Suc_upt One_nat_def)
  qed
  have "extract_n F (Suc (Suc k)) (?s, object0) = extract_n F (Suc k) (?s, object0)"
    using extract_n_Suc [of F "Suc k" "(?s, object0)"] bad
      extract_Point_fail [of "fst (extract_n F (Suc k) (?s, object0))" F]
    by simp
  with view show ?thesis
    by (simp add: points_of_eq main_copies_cout)
qed

text \<open>
  The input \<open>1 2\<close>, \<open>3 4\<close>, \<open>x 5\<close>, \<open>6 7\<close>: two records are delivered, the second is
  written, and the text from \<open>x\<close> on is left unread.
\<close>

theorem failed_extraction_ends_the_stream_witness:
  "istream_view sample_facets (open_stdin ''1 2\<newline>3 4\<newline>x 5\<newline>6 7\<newline>'')
     = [\<lparr>Point.x = 0x3F800000, Point.y = 0x40000000\<rparr>,
        \<lparr>Point.x = 0x40400000, Point.y = 0x40800000\<rparr>]
   \<and> points_of sample_facets (open_stdin ''1 2\<newline>3 4\<newline>x 5\<newline>6 7\<newline>'')
     = [\<lparr>Point3.x = 0x3F800000, Point3.y = 0x40000000, z = 0x40000000\<rparr>,
        \<lparr>Point3.x = 0x40400000, Point3.y = 0x41400000, z = 0x40800000\<rparr>]
   \<and> cout (main_copies sample_facets ''1 2\<newline>3 4\<newline>x 5\<newline>6 7\<newline>'') = ''3 12 4\<newline>''
   \<and> buf (fst (extract_n sample_facets 3
         (open_stdin ''1 2\<newline>3 4\<newline>x 5\<newline>6 7\<newline>'', object0)))
     = ''x 5\<newline>6 7\<newline>''"
proof -
  let ?s = "open_stdin ''1 2\<newline>3 4\<newline>x 5\<newline>6 7\<newline>''"
  have ok: "\<not> fail (fst (extract_n sample_facets (Suc (Suc 0)) (?s, object0)))"
    by (simp only: sample_extract_malformed) (simp add: fail_def)
  have bad: "fail (fst (extract_n sample_facets (Suc (Suc (Suc 0))) (?s, object0)))"
    by (simp only: sample_extract_malformed) (simp add: fail_def)
  have idx: "[1..<Suc (Suc (Suc 0))] = [Suc 0, Suc (Suc 0)]"
    by (simp add: upt_rec)
  have three: "(3::nat) = Suc (Suc (Suc 0))"
    by simp
  have put: "output_line sample_facets
        \<lparr>Point3.x = 0x40400000, Point3.y = 0x41400000, z = 0x40800000\<rparr> = ''3 12 4\<newline>''"
    by (simp add: output_line_def sample_facets_def whole_put_def dec.simps f32_eval)
  have derived: "map transform_fn (filter filter_pred
        [\<lparr>Point.x = 0x3F800000, Point.y = 0x40000000\<rparr>,
         \<lparr>Point.x = 0x40400000, Point.y = 0x40800000\<rparr>])
      = [\<lparr>Point3.x = 0x3F800000, Point3.y = 0x40000000, z = 0x40000000\<rparr>,
         \<lparr>Point3.x = 0x40400000, Point3.y = 0x41400000, z = 0x40800000\<rparr>]"
    by (simp add: filter_pred_def transform_fn_def f32_eval)
  show ?thesis
    using failed_extraction_ends_the_stream [OF ok bad]
    by (simp only: idx three list.map sample_extract_malformed snd_conv fst_conv derived)
      (simp add: put)
qed

subsection \<open>C7: the bounded traversal of the counter\<close>

text \<open>
  C7: the loop of lines 73 to 79 returns, and its items are the 20 squares \<open>k * k\<close> for
  \<open>k\<close> from 2 to 21, in increasing order of \<open>k\<close>. The counter ends at 22 and the
  largest square is 441, so no \<open>int\<close> overflows on the way.
\<close>

theorem iota_items_squares:
  "iota_items = Some (map (\<lambda>k. k * k) [2..21])
   \<and> iota_items = Some [4, 9, 16, 25, 36, 49, 64, 81, 100, 121, 144, 169, 196, 225, 256, 289,
        324, 361, 400, 441]
   \<and> map_option length iota_items = Some 20"
proof -
  have "iota_fn = (\<lambda>k. k * k)"
    by (rule ext) (simp add: iota_fn_def)
  then have items: "iota_items = Some (map (\<lambda>k. k * k) [2..21])"
    using iota_next_returns [of 2 0] take_loop_returns [of 20 2]
    by (simp add: iota_items_def iota_begin_def iota_find_if_returns)
  have squares: "map (\<lambda>k. k * k) [2..(21::int)]
      = [4, 9, 16, 25, 36, 49, 64, 81, 100, 121, 144, 169, 196, 225, 256, 289,
         324, 361, 400, 441]"
    by simp
  have "map_option length iota_items = Some 20"
    by (simp only: items squares) simp
  then show ?thesis
    using items squares by simp
qed

subsection \<open>C8: the sorting steps\<close>




subsection \<open>C9: the three formulations of the sort\<close>

text \<open>
  C9 as stated speaks of every vector of records. A vector may hold a NaN in a \<open>z\<close>
  field; then \<open>a.z < b.z\<close> is not a strict weak ordering, and the result need not be
  sorted. On the vector with \<open>z\<close> fields 3, NaN, 1, 2 the sort moves 1 to the front,
  leaves 2 behind the NaN, and ends with 3 before 2.
\<close>

theorem nan_key_not_sorted:
  "std_sort cmp_z
     [\<lparr>Point3.x = 0, Point3.y = 0, z = 0x40400000\<rparr>,
      \<lparr>Point3.x = 0, Point3.y = 0, z = 0x7FC00000\<rparr>,
      \<lparr>Point3.x = 0, Point3.y = 0, z = 0x3F800000\<rparr>,
      \<lparr>Point3.x = 0, Point3.y = 0, z = 0x40000000\<rparr>]
     = [\<lparr>Point3.x = 0, Point3.y = 0, z = 0x3F800000\<rparr>,
        \<lparr>Point3.x = 0, Point3.y = 0, z = 0x40400000\<rparr>,
        \<lparr>Point3.x = 0, Point3.y = 0, z = 0x7FC00000\<rparr>,
        \<lparr>Point3.x = 0, Point3.y = 0, z = 0x40000000\<rparr>]
   \<and> \<not> ascending_by_z
       [\<lparr>Point3.x = 0, Point3.y = 0, z = 0x3F800000\<rparr>,
        \<lparr>Point3.x = 0, Point3.y = 0, z = 0x40400000\<rparr>,
        \<lparr>Point3.x = 0, Point3.y = 0, z = 0x7FC00000\<rparr>,
        \<lparr>Point3.x = 0, Point3.y = 0, z = 0x40000000\<rparr>]
   \<and> flt 0x40000000 0x40400000"
  by (simp add: sort_eval ascending_by_z_def f32_eval)

text \<open>
  C9, amended: for every vector of records in which no \<open>z\<close> is a NaN, the three
  formulations are equivalent: each yields a permutation of the input in ascending
  order of \<open>z\<close>, and when all \<open>z\<close> values are distinct the three results are
  identical. The theorem shows a little more: the three results are identical on every
  such vector, and with \<open>z\<close> values that are distinct as numbers the result is the
  only permutation of the input in ascending order of \<open>z\<close>, so that it does not
  depend on the algorithm behind \<open>std::sort\<close>.
\<close>

theorem three_sorts_agree:
  "\<forall>p\<in>set vec. \<not> is_nan (z p) \<Longrightarrow>
   mset (std_sort cmp_z vec) = mset vec \<and> ascending_by_z (std_sort cmp_z vec)
   \<and> mset (rng_sort ranges_less proj_z vec) = mset vec
   \<and> ascending_by_z (rng_sort ranges_less proj_z vec)
   \<and> mset (rng_sort ranges_less z vec) = mset vec
   \<and> ascending_by_z (rng_sort ranges_less z vec)
   \<and> rng_sort ranges_less proj_z vec = std_sort cmp_z vec
   \<and> rng_sort ranges_less z vec = std_sort cmp_z vec
   \<and> (distinct (map (\<lambda>p. f_val (z p)) vec) \<longrightarrow>
        (\<forall>ws. mset ws = mset vec \<and> ascending_by_z ws \<longrightarrow> ws = std_sort cmp_z vec))"
  by (simp add: rng_sort_proj_z rng_sort_member_z mset_std_sort std_sort_cmp_z
      ascending_perm_unique)

text \<open>The vector with \<open>z\<close> fields 2, 20, 1.\<close>

theorem three_sorts_agree_witness:
  "std_sort cmp_z
     [\<lparr>Point3.x = 0, Point3.y = 0, z = 0x40000000\<rparr>,
      \<lparr>Point3.x = 0, Point3.y = 0, z = 0x41A00000\<rparr>,
      \<lparr>Point3.x = 0, Point3.y = 0, z = 0x3F800000\<rparr>]
     = [\<lparr>Point3.x = 0, Point3.y = 0, z = 0x3F800000\<rparr>,
        \<lparr>Point3.x = 0, Point3.y = 0, z = 0x40000000\<rparr>,
        \<lparr>Point3.x = 0, Point3.y = 0, z = 0x41A00000\<rparr>]
   \<and> rng_sort ranges_less proj_z
     [\<lparr>Point3.x = 0, Point3.y = 0, z = 0x40000000\<rparr>,
      \<lparr>Point3.x = 0, Point3.y = 0, z = 0x41A00000\<rparr>,
      \<lparr>Point3.x = 0, Point3.y = 0, z = 0x3F800000\<rparr>]
     = [\<lparr>Point3.x = 0, Point3.y = 0, z = 0x3F800000\<rparr>,
        \<lparr>Point3.x = 0, Point3.y = 0, z = 0x40000000\<rparr>,
        \<lparr>Point3.x = 0, Point3.y = 0, z = 0x41A00000\<rparr>]
   \<and> rng_sort ranges_less z
     [\<lparr>Point3.x = 0, Point3.y = 0, z = 0x40000000\<rparr>,
      \<lparr>Point3.x = 0, Point3.y = 0, z = 0x41A00000\<rparr>,
      \<lparr>Point3.x = 0, Point3.y = 0, z = 0x3F800000\<rparr>]
     = [\<lparr>Point3.x = 0, Point3.y = 0, z = 0x3F800000\<rparr>,
        \<lparr>Point3.x = 0, Point3.y = 0, z = 0x40000000\<rparr>,
        \<lparr>Point3.x = 0, Point3.y = 0, z = 0x41A00000\<rparr>]
   \<and> ascending_by_z
       [\<lparr>Point3.x = 0, Point3.y = 0, z = 0x3F800000\<rparr>,
        \<lparr>Point3.x = 0, Point3.y = 0, z = 0x40000000\<rparr>,
        \<lparr>Point3.x = 0, Point3.y = 0, z = 0x41A00000\<rparr>]"
proof -
  let ?v = "[\<lparr>Point3.x = 0, Point3.y = 0, z = 0x40000000\<rparr>,
      \<lparr>Point3.x = 0, Point3.y = 0, z = 0x41A00000\<rparr>,
      \<lparr>Point3.x = 0, Point3.y = 0, z = 0x3F800000\<rparr>]"
  have nn: "\<forall>p\<in>set ?v. \<not> is_nan (z p)"
    by (simp add: f32_eval)
  have run: "std_sort cmp_z ?v
     = [\<lparr>Point3.x = 0, Point3.y = 0, z = 0x3F800000\<rparr>,
        \<lparr>Point3.x = 0, Point3.y = 0, z = 0x40000000\<rparr>,
        \<lparr>Point3.x = 0, Point3.y = 0, z = 0x41A00000\<rparr>]"
    by (simp add: sort_eval f32_eval)
  show ?thesis
    using three_sorts_agree [OF nn] run by simp
qed

subsection \<open>C10: the filter and NaN\<close>

text \<open>
  C10: the filter keeps a record exactly when its \<open>x\<close> is a number strictly below 20,
  so the records that a traversal hands to the transform are those of the stream with
  such an \<open>x\<close>. A record whose \<open>x\<close> is a NaN is not kept and its derived record is in
  no traversal of \<open>points\<close>, although its \<open>x\<close> does not compare \<open>>= 20.0f\<close> either.
\<close>

theorem filter_keeps_iff_lt_20:
  "(filter_pred p \<longleftrightarrow> \<not> is_nan (Point.x p) \<and> f_val (Point.x p) < 20 * 2 ^ 149)
   \<and> filter filter_pred (istream_view F s)
       = filter (\<lambda>p. \<not> is_nan (Point.x p) \<and> f_val (Point.x p) < 20 * 2 ^ 149) (istream_view F s)
   \<and> (is_nan (Point.x p) \<longrightarrow>
        \<not> filter_pred p \<and> \<not> fge (Point.x p) twenty \<and> transform_fn p \<notin> set (points_of F s))"
proof -
  have keep: "filter_pred q \<longleftrightarrow> \<not> is_nan (Point.x q) \<and> f_val (Point.x q) < 20 * 2 ^ 149" for q
    by (simp add: filter_pred_def flt_def f_val_twenty twenty_not_nan)
  then have "filter_pred = (\<lambda>p. \<not> is_nan (Point.x p) \<and> f_val (Point.x p) < 20 * 2 ^ 149)"
    by (intro ext)
  then have same: "filter filter_pred (istream_view F s)
       = filter (\<lambda>p. \<not> is_nan (Point.x p) \<and> f_val (Point.x p) < 20 * 2 ^ 149) (istream_view F s)"
    by simp
  have "\<not> filter_pred p \<and> \<not> fge (Point.x p) twenty \<and> transform_fn p \<notin> set (points_of F s)"
    if "is_nan (Point.x p)"
    using that keep [of p] not_kept_not_derived [of p F s] by (simp add: fge_def)
  with keep [of p] same show ?thesis
    by blast
qed

text \<open>The quiet NaN \<open>0x7FC00000\<close> as \<open>x\<close>, and the input \<open>20 1\<close>, \<open>3 4\<close>.\<close>

theorem filter_keeps_iff_lt_20_witness:
  "is_nan (Point.x \<lparr>Point.x = 0x7FC00000, Point.y = 0\<rparr>)
   \<and> \<not> filter_pred \<lparr>Point.x = 0x7FC00000, Point.y = 0\<rparr>
   \<and> \<not> fge (Point.x \<lparr>Point.x = 0x7FC00000, Point.y = 0\<rparr>) twenty
   \<and> transform_fn \<lparr>Point.x = 0x7FC00000, Point.y = 0\<rparr>
       \<notin> set (points_of sample_facets (open_stdin ''20 1\<newline>3 4\<newline>''))
   \<and> filter filter_pred (istream_view sample_facets (open_stdin ''20 1\<newline>3 4\<newline>''))
       = [\<lparr>Point.x = 0x40400000, Point.y = 0x40800000\<rparr>]"
proof -
  have n: "is_nan (Point.x \<lparr>Point.x = 0x7FC00000, Point.y = 0\<rparr>)"
    by (simp add: f32_eval)
  have "filter (\<lambda>p. \<not> is_nan (Point.x p) \<and> f_val (Point.x p) < 20 * 2 ^ 149)
          (istream_view sample_facets (open_stdin ''20 1\<newline>3 4\<newline>''))
       = [\<lparr>Point.x = 0x40400000, Point.y = 0x40800000\<rparr>]"
    by (simp only: sample_view_20) (simp add: f32_eval)
  then show ?thesis
    using n filter_keeps_iff_lt_20 [of "\<lparr>Point.x = 0x7FC00000, Point.y = 0\<rparr>" sample_facets
        "open_stdin ''20 1\<newline>3 4\<newline>''"]
    by simp
qed

end
